theory Spec2Isabelle
  imports Main
begin

section \<open>Python library functions called by app.py\<close>

text \<open>
  A \<^typ>\<open>string\<close> stands for a Python \<^verbatim>\<open>str\<close> whose code points are below 256, one
  \<^typ>\<open>char\<close> per code point. The functions of this section are the builtins and
  standard-library functions that \<^verbatim>\<open>app.py\<close> calls, written out on such strings.
\<close>

definition dquote :: string where
  "dquote = [CHR 0x22]"

text \<open>\<^verbatim>\<open>str(n)\<close> for a non-negative integer, as the f-strings of the source render a counter.\<close>

definition digit_char :: "nat \<Rightarrow> char" where
  "digit_char d = char_of (48 + d)"

fun str_nat :: "nat \<Rightarrow> string" where
  "str_nat n = (if n < 10 then [digit_char n] else str_nat (n div 10) @ [digit_char (n mod 10)])"

declare str_nat.simps [simp del]

text \<open>\<^verbatim>\<open>str.lower()\<close>: the cased code points below 256 are A-Z and 192-222 without 215.\<close>

definition lower_char :: "char \<Rightarrow> char" where
  "lower_char c =
     (let n = (of_char c :: nat)
      in if (65 \<le> n \<and> n \<le> 90) \<or> (192 \<le> n \<and> n \<le> 222 \<and> n \<noteq> 215)
         then char_of (n + 32) else c)"

definition lower :: "string \<Rightarrow> string" where
  "lower s = map lower_char s"

text \<open>\<^verbatim>\<open>s.split(sep, 1)\<close> and \<^verbatim>\<open>s.rsplit(sep, 1)\<close> for a one-character separator.\<close>

definition split1 :: "char \<Rightarrow> string \<Rightarrow> string list" where
  "split1 sep s =
     (if sep \<in> set s
      then [takeWhile (\<lambda>c. c \<noteq> sep) s, tl (dropWhile (\<lambda>c. c \<noteq> sep) s)]
      else [s])"

definition rsplit1 :: "char \<Rightarrow> string \<Rightarrow> string list" where
  "rsplit1 sep s =
     (if sep \<in> set s
      then [rev (tl (dropWhile (\<lambda>c. c \<noteq> sep) (rev s))),
            rev (takeWhile (\<lambda>c. c \<noteq> sep) (rev s))]
      else [s])"

text \<open>\<^verbatim>\<open>s.rfind(c)\<close>: the index of the last occurrence, or -1.\<close>

definition rfind :: "char \<Rightarrow> string \<Rightarrow> int" where
  "rfind c s =
     (if c \<in> set s
      then int (length s) - 1 - int (length (takeWhile (\<lambda>d. d \<noteq> c) (rev s)))
      else - 1)"

text \<open>
  \<^verbatim>\<open>os.path.splitext(p)\<close> on POSIX: the extension starts at the last dot, when that dot
  comes after the last separator and some character between the two is not a dot.
\<close>

definition splitext :: "string \<Rightarrow> string \<times> string" where
  "splitext p =
     (let sepIndex = rfind CHR ''/'' p;
          dotIndex = rfind CHR ''.'' p
      in if dotIndex > sepIndex \<and>
            list_ex (\<lambda>c. c \<noteq> CHR ''.'')
              (take (nat (dotIndex - (sepIndex + 1))) (drop (nat (sepIndex + 1)) p))
         then (take (nat dotIndex) p, drop (nat dotIndex) p)
         else (p, []))"

text \<open>
  \<^verbatim>\<open>int(s)\<close> in base 10: white space around the literal is dropped, one sign may come
  first, and the digits may be grouped by single underscores. \<^const>\<open>None\<close> is ValueError.
\<close>

definition is_space :: "char \<Rightarrow> bool" where
  "is_space c \<longleftrightarrow> (of_char c :: nat) \<in> {9, 10, 11, 12, 13, 32, 133, 160}"

definition digit_val :: "char \<Rightarrow> nat option" where
  "digit_val c =
     (let n = (of_char c :: nat) in if 48 \<le> n \<and> n \<le> 57 then Some (n - 48) else None)"

fun digits_value :: "bool \<Rightarrow> nat \<Rightarrow> string \<Rightarrow> nat option" where
  "digits_value prev acc [] = (if prev then Some acc else None)"
| "digits_value prev acc (c # cs) =
     (if c = CHR ''_'' then (if prev then digits_value False acc cs else None)
      else (case digit_val c of
              None \<Rightarrow> None
            | Some d \<Rightarrow> digits_value True (10 * acc + d) cs))"

definition strip :: "string \<Rightarrow> string" where
  "strip s = rev (dropWhile is_space (rev (dropWhile is_space s)))"

definition py_int :: "string \<Rightarrow> int option" where
  "py_int s =
     (case strip s of
        [] \<Rightarrow> None
      | c # cs \<Rightarrow>
          if c = CHR ''-'' then map_option (\<lambda>n. - int n) (digits_value False 0 cs)
          else if c = CHR ''+'' then map_option int (digits_value False 0 cs)
          else map_option int (digits_value False 0 (c # cs)))"

section \<open>Data model\<close>

text \<open>The rows of the two tables, \<^verbatim>\<open>class Card\<close> and \<^verbatim>\<open>class Image\<close>.\<close>

record Card =
  card_id :: int
  card_name :: string
  card_parent_id :: "int option"

record Image =
  image_id :: int
  image_filename :: string
  image_card_id :: int

text \<open>
  An uploaded file (werkzeug's \<^verbatim>\<open>FileStorage\<close>): the name the client sent, and the
  message of the exception that writing it to disk raises, if it raises.
\<close>

record upload =
  filename :: string
  save_fault :: "string option"

text \<open>
  Everything a request can change: the committed rows, the entries of the directory
  \<^verbatim>\<open>UPLOAD_FOLDER\<close>, and the flashed messages with their categories.
\<close>

record world =
  cards :: "Card list"
  images :: "Image list"
  files :: "string list"
  flashes :: "(string \<times> string) list"

datatype response = Redirect string | Render string | NotFound | ServerError

type_synonym session = "string \<rightharpoonup> string"

definition flash :: "string \<Rightarrow> string \<Rightarrow> world \<Rightarrow> world" where
  "flash message category s = s\<lparr>flashes := flashes s @ [(message, category)]\<rparr>"

text \<open>
  The integer primary key SQLite gives a new row: 1 in an empty table, otherwise one more
  than the largest key in use.
\<close>

definition fresh_id :: "int list \<Rightarrow> int" where
  "fresh_id ids = (case ids of [] \<Rightarrow> 1 | x # xs \<Rightarrow> fold max xs x + 1)"

section \<open>The helpers of app.py\<close>

definition ALLOWED_EXTENSIONS :: "string set" where
  "ALLOWED_EXTENSIONS = {''png'', ''jpg'', ''jpeg'', ''gif'', ''webp''}"

definition GALLERY_PASSWORDS :: "string \<rightharpoonup> string" where
  "GALLERY_PASSWORDS = [''123'' \<mapsto> ''public'', ''admin123'' \<mapsto> ''admin'']"

definition allowed_file :: "string \<Rightarrow> bool" where
  "allowed_file fname \<longleftrightarrow>
     CHR ''.'' \<in> set fname \<and> lower (rsplit1 CHR ''.'' fname ! 1) \<in> ALLOWED_EXTENSIONS"

text \<open>
  \<^verbatim>\<open>os.path.exists(os.path.join(UPLOAD_FOLDER, name))\<close> for a name without a separator
  (what \<^verbatim>\<open>secure_filename\<close> returns): an entry of the directory, or the directory itself
  when the name is empty.
\<close>

definition path_exists :: "string list \<Rightarrow> string \<Rightarrow> bool" where
  "path_exists fs fname \<longleftrightarrow> fname = [] \<or> fname \<in> set fs"

text \<open>The name the loop of \<^verbatim>\<open>save_file\<close> builds: \<^verbatim>\<open>f"{name}_{counter}{ext}"\<close>.\<close>

definition suffixed :: "string \<Rightarrow> nat \<Rightarrow> string" where
  "suffixed original_filename counter =
     (case splitext original_filename of
        (name, ext) \<Rightarrow> name @ ''_'' @ str_nat counter @ ext)"

lemma digit_char_inj: "a < 10 \<Longrightarrow> b < 10 \<Longrightarrow> digit_char a = digit_char b \<Longrightarrow> a = b"
proof -
  assume a: "a < 10" and b: "b < 10" and e: "digit_char a = digit_char b"
  from e have "(of_char (digit_char a) :: nat) = of_char (digit_char b)" by simp
  then have "(48 + a) mod 256 = (48 + b) mod 256" by (simp add: digit_char_def)
  with a b show "a = b" by simp
qed

lemma str_nat_nonempty: "str_nat n \<noteq> []"
  by (subst str_nat.simps) simp

lemma str_nat_inj: "str_nat a = str_nat b \<Longrightarrow> a = b"
proof (induction a arbitrary: b rule: str_nat.induct)
  case (1 n)
  show ?case
  proof (cases "n < 10")
    case True
    show ?thesis
    proof (cases "b < 10")
      case True
      with \<open>n < 10\<close> "1.prems" show ?thesis
        by (simp add: str_nat.simps [of n] str_nat.simps [of b] digit_char_inj)
    next
      case False
      with \<open>n < 10\<close> "1.prems" str_nat_nonempty [of "b div 10"] show ?thesis
        by (simp add: str_nat.simps [of n] str_nat.simps [of b])
    qed
  next
    case False
    show ?thesis
    proof (cases "b < 10")
      case True
      with \<open>\<not> n < 10\<close> "1.prems" str_nat_nonempty [of "n div 10"] show ?thesis
        by (simp add: str_nat.simps [of n] str_nat.simps [of b])
    next
      case bf: False
      with False "1.prems" have e1: "str_nat (n div 10) = str_nat (b div 10)"
        and e2: "digit_char (n mod 10) = digit_char (b mod 10)"
        by (simp_all add: str_nat.simps [of n] str_nat.simps [of b])
      from "1.IH" [OF False e1] have d: "n div 10 = b div 10" .
      from e2 have m: "n mod 10 = b mod 10" by (simp add: digit_char_inj)
      from d m show ?thesis by (metis div_mult_mod_eq)
    qed
  qed
qed

lemma suffixed_inj: "suffixed original a = suffixed original b \<Longrightarrow> a = b"
  by (auto simp: suffixed_def split: prod.splits dest: str_nat_inj)

lemma suffixed_nonempty: "suffixed original counter \<noteq> []"
  by (simp add: suffixed_def split: prod.splits)

lemma finite_suffixed_taken: "finite {c. counter \<le> c \<and> suffixed original c \<in> set fs}"
proof -
  have "inj (suffixed original)"
    by (rule injI) (rule suffixed_inj)
  then have "finite (suffixed original -` set fs)"
    by (simp add: finite_vimageI)
  moreover have "{c. counter \<le> c \<and> suffixed original c \<in> set fs} \<subseteq> suffixed original -` set fs"
    by auto
  ultimately show ?thesis
    by (rule rev_finite_subset)
qed

text \<open>
  The \<^verbatim>\<open>while\<close> loop of \<^verbatim>\<open>save_file\<close>, on the pair of \<^verbatim>\<open>counter\<close> and \<^verbatim>\<open>filename\<close>.
  It ends because the directory has finitely many entries and the names it tries are
  pairwise different.
\<close>

function save_file_loop :: "string list \<Rightarrow> string \<Rightarrow> nat \<Rightarrow> string \<Rightarrow> string" where
  "save_file_loop fs original_filename counter fname =
     (if path_exists fs fname
      then save_file_loop fs original_filename (counter + 1) (suffixed original_filename counter)
      else fname)"
  by pat_completeness auto
termination
proof (relation "measure (\<lambda>(fs, original, counter, fname).
         if path_exists fs fname
         then Suc (card {c. counter \<le> c \<and> suffixed original c \<in> set fs}) else 0)")
  show "wf (measure (\<lambda>(fs, original, counter, fname).
         if path_exists fs fname
         then Suc (card {c. counter \<le> c \<and> suffixed original c \<in> set fs}) else 0))"
    by simp
next
  fix fs :: "string list" and original_filename :: string and counter :: nat and fname :: string
  assume ex: "path_exists fs fname"
  let ?A = "{c. counter \<le> c \<and> suffixed original_filename c \<in> set fs}"
  let ?B = "{c. counter + 1 \<le> c \<and> suffixed original_filename c \<in> set fs}"
  have "path_exists fs (suffixed original_filename counter) \<Longrightarrow> card ?B < card ?A"
  proof -
    assume "path_exists fs (suffixed original_filename counter)"
    then have "counter \<in> ?A"
      by (simp add: path_exists_def suffixed_nonempty)
    moreover have "counter \<notin> ?B" by simp
    moreover have "?B \<subseteq> ?A" by auto
    ultimately have "?B \<subset> ?A" by blast
    then show ?thesis
      by (rule psubset_card_mono [OF finite_suffixed_taken])
  qed
  with ex show "((fs, original_filename, counter + 1, suffixed original_filename counter),
                 (fs, original_filename, counter, fname))
        \<in> measure (\<lambda>(fs, original, counter, fname).
             if path_exists fs fname
             then Suc (card {c. counter \<le> c \<and> suffixed original c \<in> set fs}) else 0)"
    by simp
qed

declare save_file_loop.simps [simp del]

text \<open>
  \<^verbatim>\<open>save_file(file)\<close>. The sanitizer \<^verbatim>\<open>secure_filename\<close> is werkzeug's and is a parameter.
  \<^const>\<open>Inl\<close> carries the message of the exception \<^verbatim>\<open>file.save\<close> raised; \<^const>\<open>Inr\<close> the
  returned name and the directory after the write.
\<close>

definition save_file ::
  "(string \<Rightarrow> string) \<Rightarrow> string list \<Rightarrow> upload \<Rightarrow> string + string \<times> string list" where
  "save_file secure_filename fs file =
     (let original_filename = secure_filename (filename file);
          fname = save_file_loop fs original_filename 1 original_filename
      in case save_fault file of
           Some message \<Rightarrow> Inl message
         | None \<Rightarrow> Inr (fname, List.insert fname fs))"

section \<open>The gallery routes\<close>

text \<open>
  A route takes the session, the fields of the request and the world, and returns the
  response with the world after the request. Rows that were added and not committed are
  gone when the request ends, so an outcome without commit carries the rows it started
  from. The unhandled exceptions that the source can raise on its own (\<^verbatim>\<open>int\<close> of a bad
  literal, a key SQLite cannot store, a failed write of an upload) end in
  \<^const>\<open>ServerError\<close>; a failure of the database engine is an input of \<^verbatim>\<open>upload_folder\<close>
  only, the one route that handles it.
\<close>

definition permission_denied :: "world \<Rightarrow> response \<times> world" where
  "permission_denied s =
     (Redirect ''gallery'', flash ''You do not have permission to do that.'' ''error'' s)"

definition gallery_login_post ::
  "string option \<Rightarrow> session \<Rightarrow> world \<Rightarrow> response \<times> session \<times> world" where
  "gallery_login_post password sess s =
     (case (case password of None \<Rightarrow> None | Some p \<Rightarrow> GALLERY_PASSWORDS p) of
        Some access_level \<Rightarrow>
          if access_level \<noteq> []
          then (Redirect ''gallery'', sess(''gallery_access'' \<mapsto> access_level),
                flash (''Logged in with '' @ access_level @ '' access.'') ''success'' s)
          else (Render ''gallery_login.html'', sess, flash ''Incorrect password.'' ''error'' s)
      | None \<Rightarrow> (Render ''gallery_login.html'', sess, flash ''Incorrect password.'' ''error'' s))"

text \<open>An integer SQLite can store: 64 bits, signed. Python's driver raises on any other.\<close>

definition sqlite_integer :: "int \<Rightarrow> bool" where
  "sqlite_integer n \<longleftrightarrow> - (2 ^ 63) \<le> n \<and> n < 2 ^ 63"

text \<open>
  \<^verbatim>\<open>int(parent_id) if parent_id and parent_id != 'None' else None\<close>; the outer
  \<^const>\<open>None\<close> is the ValueError of \<^verbatim>\<open>int\<close>.
\<close>

definition parse_parent_id :: "string option \<Rightarrow> int option option" where
  "parse_parent_id parent_id =
     (case parent_id of
        None \<Rightarrow> Some None
      | Some p \<Rightarrow> if p \<noteq> [] \<and> p \<noteq> ''None'' then map_option Some (py_int p) else Some None)"

definition storable :: "int option \<Rightarrow> bool" where
  "storable key = (case key of None \<Rightarrow> True | Some n \<Rightarrow> sqlite_integer n)"

definition add_card ::
  "session \<Rightarrow> string option \<Rightarrow> string option \<Rightarrow> world \<Rightarrow> response \<times> world" where
  "add_card sess card_name_field parent_id_field s =
     (if sess ''gallery_access'' \<noteq> Some ''admin'' then permission_denied s
      else case card_name_field of
        None \<Rightarrow> (Redirect ''gallery'', s)
      | Some name \<Rightarrow>
          if name = [] then (Redirect ''gallery'', s)
          else (case parse_parent_id parent_id_field of
                  None \<Rightarrow> (ServerError, s)
                | Some parent_id \<Rightarrow>
                    if storable parent_id
                    then (Redirect ''gallery'',
                          flash (''Card '' @ dquote @ name @ dquote @ '' created.'') ''success''
                            (s\<lparr>cards := cards s @
                                 [\<lparr>card_id = fresh_id (map card_id (cards s)),
                                   card_name = name,
                                   card_parent_id = parent_id\<rparr>]\<rparr>))
                    else (ServerError, s)))"

text \<open>\<^verbatim>\<open>Card.query.get_or_404(card_id)\<close>: the row with that key; \<^const>\<open>None\<close> is the 404.\<close>

definition get_card :: "Card list \<Rightarrow> int \<Rightarrow> Card option" where
  "get_card cs cid = find (\<lambda>c. card_id c = cid) cs"

definition get_image :: "Image list \<Rightarrow> int \<Rightarrow> Image option" where
  "get_image rows iid = find (\<lambda>i. image_id i = iid) rows"

definition edit_card :: "session \<Rightarrow> int \<Rightarrow> string option \<Rightarrow> world \<Rightarrow> response \<times> world" where
  "edit_card sess cid card_name_field s =
     (if sess ''gallery_access'' \<noteq> Some ''admin'' then permission_denied s
      else case get_card (cards s) cid of
        None \<Rightarrow> (NotFound, s)
      | Some row \<Rightarrow>
          (case card_name_field of
             None \<Rightarrow> (Redirect ''gallery'', flash ''New name cannot be empty.'' ''error'' s)
           | Some new_name \<Rightarrow>
               if new_name \<noteq> []
               then (Redirect ''gallery'',
                     flash (''Card renamed to '' @ dquote @ new_name @ dquote @ ''.'') ''success''
                       (s\<lparr>cards := map (\<lambda>c. if card_id c = card_id row
                                              then c\<lparr>card_name := new_name\<rparr> else c) (cards s)\<rparr>))
               else (Redirect ''gallery'', flash ''New name cannot be empty.'' ''error'' s)))"

text \<open>
  \<^verbatim>\<open>Card.query.get(card_id)\<close> in \<^verbatim>\<open>upload_image\<close> is given the text of the form field;
  which integer the engine compares that text as is the engine's rule and is the
  parameter \<open>key_of\<close>.
\<close>

definition query_get :: "(string \<Rightarrow> int option) \<Rightarrow> Card list \<Rightarrow> string option \<Rightarrow> Card option" where
  "query_get key_of cs field =
     (case field of
        None \<Rightarrow> None
      | Some key \<Rightarrow> (case key_of key of None \<Rightarrow> None | Some cid \<Rightarrow> get_card cs cid))"

text \<open>The truth value of a \<^verbatim>\<open>FileStorage\<close> is that of its filename.\<close>

definition truthy :: "upload \<Rightarrow> bool" where
  "truthy file \<longleftrightarrow> filename file \<noteq> []"

definition new_image :: "world \<Rightarrow> string \<Rightarrow> int \<Rightarrow> world" where
  "new_image s fname cid =
     s\<lparr>images := images s @
          [\<lparr>image_id = fresh_id (map image_id (images s)),
            image_filename = fname,
            image_card_id = cid\<rparr>]\<rparr>"

text \<open>
  The \<^verbatim>\<open>for\<close> loop of \<^verbatim>\<open>upload_image\<close>. \<^const>\<open>Inl\<close> is an exception of \<^verbatim>\<open>save_file\<close>, with
  the world at that moment.
\<close>

fun upload_image_loop ::
  "(string \<Rightarrow> string) \<Rightarrow> int \<Rightarrow> upload list \<Rightarrow> world \<Rightarrow> nat \<Rightarrow> string \<times> world + world \<times> nat" where
  "upload_image_loop secure_filename cid [] s uploaded_count = Inr (s, uploaded_count)"
| "upload_image_loop secure_filename cid (file # rest) s uploaded_count =
     (if truthy file \<and> filename file \<noteq> [] \<and> allowed_file (filename file)
      then (case save_file secure_filename (files s) file of
              Inl message \<Rightarrow> Inl (message, s)
            | Inr (fname, fs) \<Rightarrow>
                upload_image_loop secure_filename cid rest
                  (new_image (s\<lparr>files := fs\<rparr>) fname cid) (uploaded_count + 1))
      else upload_image_loop secure_filename cid rest
             (if truthy file \<and> filename file \<noteq> []
              then flash (''File '' @ dquote @ filename file @ dquote @ '' is not an allowed type.'')
                     ''error'' s
              else s)
             uploaded_count)"

definition rollback :: "world \<Rightarrow> world \<Rightarrow> world" where
  "rollback s0 s = s\<lparr>cards := cards s0, images := images s0\<rparr>"

definition upload_image ::
  "(string \<Rightarrow> string) \<Rightarrow> (string \<Rightarrow> int option) \<Rightarrow> session \<Rightarrow> string option \<Rightarrow> upload list \<Rightarrow>
     world \<Rightarrow> response \<times> world" where
  "upload_image secure_filename key_of sess card_id_field uploads s =
     (if sess ''gallery_access'' \<noteq> Some ''admin'' then permission_denied s
      else case query_get key_of (cards s) card_id_field of
        None \<Rightarrow> (Redirect ''gallery'', flash ''Card not found.'' ''error'' s)
      | Some row \<Rightarrow>
          (case upload_image_loop secure_filename (card_id row) uploads s 0 of
             Inl (message, s') \<Rightarrow> (ServerError, rollback s s')
           | Inr (s', uploaded_count) \<Rightarrow>
               if uploaded_count > 0
               then (Redirect ''gallery'',
                     flash (str_nat uploaded_count @ '' image(s) uploaded successfully.'')
                       ''success'' s')
               else (Redirect ''gallery'',
                     flash ''No valid files were selected or uploaded.'' ''error''
                       (rollback s s'))))"

text \<open>Lines 224 to 232: the name of the card \<^verbatim>\<open>upload_folder\<close> creates.\<close>

definition folder_card_name :: "string \<Rightarrow> string" where
  "folder_card_name first_file_path =
     (let path_parts = split1 CHR ''/'' first_file_path
      in if length path_parts > 1 then path_parts ! 0 else ''Uploaded Files'')"

fun upload_folder_loop ::
  "(string \<Rightarrow> string) \<Rightarrow> int \<Rightarrow> upload list \<Rightarrow> world \<Rightarrow> nat \<Rightarrow> string \<times> world + world \<times> nat" where
  "upload_folder_loop secure_filename cid [] s uploaded_count = Inr (s, uploaded_count)"
| "upload_folder_loop secure_filename cid (file # rest) s uploaded_count =
     (if truthy file \<and> allowed_file (filename file)
      then (case save_file secure_filename (files s) file of
              Inl message \<Rightarrow> Inl (message, s)
            | Inr (fname, fs) \<Rightarrow>
                upload_folder_loop secure_filename cid rest
                  (new_image (s\<lparr>files := fs\<rparr>) fname cid) (uploaded_count + 1))
      else upload_folder_loop secure_filename cid rest s uploaded_count)"

text \<open>
  The body of the \<^verbatim>\<open>try\<close> of \<^verbatim>\<open>upload_folder\<close>. \<open>flush_fault\<close> and \<open>commit_fault\<close> are the
  messages of the exceptions that \<^verbatim>\<open>db.session.flush()\<close> and \<^verbatim>\<open>db.session.commit()\<close> raise,
  if they raise. \<^const>\<open>Inl\<close> is the exception that leaves the body, with the world at that
  moment; \<^const>\<open>Inr\<close> is the world after the commit and the flash.
\<close>

definition upload_folder_try ::
  "(string \<Rightarrow> string) \<Rightarrow> string option \<Rightarrow> string option \<Rightarrow> upload list \<Rightarrow> world \<Rightarrow>
     string \<times> world + world" where
  "upload_folder_try secure_filename flush_fault commit_fault uploads s =
     (case uploads of
        [] \<Rightarrow> Inl (''list index out of range'', s)
      | first # _ \<Rightarrow>
          let card_name = folder_card_name (filename first);
              new_card = \<lparr>card_id = fresh_id (map card_id (cards s)),
                          card_name = card_name,
                          card_parent_id = None\<rparr>;
              s1 = s\<lparr>cards := cards s @ [new_card]\<rparr>
          in case flush_fault of
               Some message \<Rightarrow> Inl (message, s1)
             | None \<Rightarrow>
                 (case upload_folder_loop secure_filename (card_id new_card) uploads s1 0 of
                    Inl (message, s2) \<Rightarrow> Inl (message, s2)
                  | Inr (s2, uploaded_count) \<Rightarrow>
                      (case commit_fault of
                         Some message \<Rightarrow> Inl (message, s2)
                       | None \<Rightarrow>
                           Inr (flash (''Folder '' @ dquote @ card_name @ dquote @
                                       '' created with '' @ str_nat uploaded_count @ '' images.'')
                                  ''success'' s2))))"

definition upload_folder ::
  "(string \<Rightarrow> string) \<Rightarrow> string option \<Rightarrow> string option \<Rightarrow> session \<Rightarrow> upload list \<Rightarrow>
     world \<Rightarrow> response \<times> world" where
  "upload_folder secure_filename flush_fault commit_fault sess uploads s =
     (if sess ''gallery_access'' \<noteq> Some ''admin'' then permission_denied s
      else if uploads = []
      then (Redirect ''gallery'', flash ''No folder or files selected.'' ''error'' s)
      else (case upload_folder_try secure_filename flush_fault commit_fault uploads s of
              Inl (message, s') \<Rightarrow>
                (Redirect ''gallery'',
                 flash (''An error occurred during folder upload: '' @ message) ''error''
                   (rollback s s'))
            | Inr s' \<Rightarrow> (Redirect ''gallery'', s')))"

text \<open>
  \<^verbatim>\<open>os.remove\<close> inside \<^verbatim>\<open>try ... except OSError: pass\<close>: the entry is gone afterwards, and
  a name that is no file of the directory changes nothing.
\<close>

definition os_remove :: "string \<Rightarrow> string list \<Rightarrow> string list" where
  "os_remove fname fs = (if fname = [] then fs else removeAll fname fs)"

text \<open>
  The rows \<^verbatim>\<open>db.session.delete(card)\<close> removes through \<^verbatim>\<open>cascade="all, delete-orphan"\<close> on
  \<^verbatim>\<open>children\<close>: the card, the cards whose parent is removed, and so on. One round adds
  the children of the rows found so far; there are as many rounds as the table has rows.
\<close>

definition cascade_step :: "Card list \<Rightarrow> int set \<Rightarrow> int set" where
  "cascade_step cs found =
     found \<union> set (map card_id (filter (\<lambda>c. \<exists>p\<in>found. card_parent_id c = Some p) cs))"

fun cascade_rounds :: "nat \<Rightarrow> Card list \<Rightarrow> int set \<Rightarrow> int set" where
  "cascade_rounds 0 cs found = found"
| "cascade_rounds (Suc n) cs found = cascade_rounds n cs (cascade_step cs found)"

definition cascade :: "Card list \<Rightarrow> int \<Rightarrow> int set" where
  "cascade cs cid = cascade_rounds (length cs) cs {cid}"

definition delete_card :: "session \<Rightarrow> int \<Rightarrow> world \<Rightarrow> response \<times> world" where
  "delete_card sess cid s =
     (if sess ''gallery_access'' \<noteq> Some ''admin'' then permission_denied s
      else case get_card (cards s) cid of
        None \<Rightarrow> (NotFound, s)
      | Some card_to_delete \<Rightarrow>
          let direct = filter (\<lambda>i. image_card_id i = card_id card_to_delete) (images s);
              fs = fold (\<lambda>image. os_remove (image_filename image)) direct (files s);
              gone = cascade (cards s) (card_id card_to_delete)
          in (Redirect ''gallery'',
              flash (''Card '' @ dquote @ card_name card_to_delete @ dquote @
                     '' and all its contents deleted.'') ''success''
                (s\<lparr>cards := filter (\<lambda>c. card_id c \<notin> gone) (cards s),
                   images := filter (\<lambda>i. image_card_id i \<notin> gone) (images s),
                   files := fs\<rparr>)))"

definition delete_image :: "session \<Rightarrow> int \<Rightarrow> world \<Rightarrow> response \<times> world" where
  "delete_image sess iid s =
     (if sess ''gallery_access'' \<noteq> Some ''admin'' then permission_denied s
      else case get_image (images s) iid of
        None \<Rightarrow> (NotFound, s)
      | Some image_to_delete \<Rightarrow>
          (Redirect ''gallery'',
           flash ''Image deleted.'' ''success''
             (s\<lparr>images := filter (\<lambda>i. image_id i \<noteq> image_id image_to_delete) (images s),
                files := os_remove (image_filename image_to_delete) (files s)\<rparr>)))"

text \<open>What the spec calls a descendant: a child, or a child of a descendant.\<close>

inductive_set descendants :: "Card list \<Rightarrow> int \<Rightarrow> int set" for cs :: "Card list" and cid :: int where
  child: "c \<in> set cs \<Longrightarrow> card_parent_id c = Some cid \<Longrightarrow> card_id c \<in> descendants cs cid"
| deeper: "p \<in> descendants cs cid \<Longrightarrow> c \<in> set cs \<Longrightarrow> card_parent_id c = Some p \<Longrightarrow>
           card_id c \<in> descendants cs cid"

section \<open>A sanitizer and states to run the routes on\<close>

text \<open>
  werkzeug's \<^verbatim>\<open>secure_filename\<close> on POSIX, for names of ASCII characters: separators become
  spaces, the words are joined by underscores, every character outside
  \<^verbatim>\<open>[A-Za-z0-9_.-]\<close> is dropped, and dots and underscores are stripped from both ends. The
  theorems below hold for every sanitizer; the examples run with this one.
\<close>

definition word_space :: "char \<Rightarrow> bool" where
  "word_space c \<longleftrightarrow> (of_char c :: nat) \<in> {9, 10, 11, 12, 13, 28, 29, 30, 31, 32}"

definition safe_char :: "char \<Rightarrow> bool" where
  "safe_char c \<longleftrightarrow>
     (let n = (of_char c :: nat)
      in (48 \<le> n \<and> n \<le> 57) \<or> (65 \<le> n \<and> n \<le> 90) \<or> (97 \<le> n \<and> n \<le> 122) \<or>
         c = CHR ''_'' \<or> c = CHR ''.'' \<or> c = CHR ''-'')"

fun split_words :: "string \<Rightarrow> string \<Rightarrow> string list" where
  "split_words w [] = (if w = [] then [] else [w])"
| "split_words w (c # cs) =
     (if word_space c then (if w = [] then split_words [] cs else w # split_words [] cs)
      else split_words (w @ [c]) cs)"

fun join_words :: "string list \<Rightarrow> string" where
  "join_words [] = []"
| "join_words [w] = w"
| "join_words (w # v # ws) = w @ ''_'' @ join_words (v # ws)"

definition secure_filename_ascii :: "string \<Rightarrow> string" where
  "secure_filename_ascii fname =
     (let ascii = filter (\<lambda>c. (of_char c :: nat) < 128) fname;
          spaced = map (\<lambda>c. if c = CHR ''/'' then CHR '' '' else c) ascii;
          kept = filter safe_char (join_words (split_words [] spaced));
          edge = (\<lambda>c. c = CHR ''.'' \<or> c = CHR ''_'')
      in rev (dropWhile edge (rev (dropWhile edge kept))))"

definition admin_session :: session where
  "admin_session = [''gallery_access'' \<mapsto> ''admin'']"

definition public_session :: session where
  "public_session = [''gallery_access'' \<mapsto> ''public'']"

text \<open>
  A gallery of four cards: Trips (1) with the child Rome (2) and the grandchild Forum (3),
  and Pets (4); one image on each of Trips, Rome and Pets, each with its file.
\<close>

definition gallery_world :: world where
  "gallery_world =
     \<lparr>cards = [\<lparr>card_id = 1, card_name = ''Trips'', card_parent_id = None\<rparr>,
               \<lparr>card_id = 2, card_name = ''Rome'', card_parent_id = Some 1\<rparr>,
               \<lparr>card_id = 3, card_name = ''Forum'', card_parent_id = Some 2\<rparr>,
               \<lparr>card_id = 4, card_name = ''Pets'', card_parent_id = None\<rparr>],
      images = [\<lparr>image_id = 1, image_filename = ''map.png'', image_card_id = 1\<rparr>,
                \<lparr>image_id = 2, image_filename = ''rome.jpg'', image_card_id = 2\<rparr>,
                \<lparr>image_id = 3, image_filename = ''cat.gif'', image_card_id = 4\<rparr>],
      files = [''map.png'', ''rome.jpg'', ''cat.gif''],
      flashes = []\<rparr>"

text \<open>The key rule the examples run with: a plain decimal literal names its integer.\<close>

definition decimal_key :: "string \<Rightarrow> int option" where
  "decimal_key key = map_option int (digits_value False 0 key)"

text \<open>Three folder uploads: two images in a folder, two files no route accepts, and two
  images of which the second cannot be written.\<close>

definition trip_batch :: "upload list" where
  "trip_batch = [\<lparr>filename = ''Trip/a.jpg'', save_fault = None\<rparr>,
                 \<lparr>filename = ''Trip/b.png'', save_fault = None\<rparr>]"

definition loose_batch :: "upload list" where
  "loose_batch = [\<lparr>filename = ''notes.txt'', save_fault = None\<rparr>,
                  \<lparr>filename = ''run.exe'', save_fault = None\<rparr>]"

definition failing_batch :: "upload list" where
  "failing_batch = [\<lparr>filename = ''Trip/a.jpg'', save_fault = None\<rparr>,
                    \<lparr>filename = ''Trip/b.png'', save_fault = Some ''disk full''\<rparr>]"

text \<open>An upload of four files to one card: a name already taken, a part without a name,
  a program, and an image with an upper-case extension.\<close>

definition mixed_batch :: "upload list" where
  "mixed_batch = [\<lparr>filename = ''cat.gif'', save_fault = None\<rparr>,
                  \<lparr>filename = '''', save_fault = None\<rparr>,
                  \<lparr>filename = ''run.exe'', save_fault = None\<rparr>,
                  \<lparr>filename = ''Dog.PNG'', save_fault = None\<rparr>]"

section \<open>Fresh keys\<close>




section \<open>Authorization\<close>

text \<open>
  C1. Each of the six admin-only routes, called with a session whose stored
  \<^verbatim>\<open>gallery_access\<close> is anything but \<^verbatim>\<open>admin\<close> (so also \<^verbatim>\<open>public\<close>, and no entry at all),
  answers with the redirect to the gallery and flashes the error message; the cards, the
  images and the files are the ones it started with.
\<close>

theorem admin_only_routes_reject:
  assumes "sess ''gallery_access'' \<noteq> Some ''admin''"
  shows "add_card sess card_name_field parent_id_field s = permission_denied s \<and>
         edit_card sess cid card_name_field s = permission_denied s \<and>
         upload_image secure_filename key_of sess card_id_field uploads s = permission_denied s \<and>
         upload_folder secure_filename flush_fault commit_fault sess uploads s =
           permission_denied s \<and>
         delete_card sess cid s = permission_denied s \<and>
         delete_image sess iid s = permission_denied s \<and>
         fst (permission_denied s) = Redirect ''gallery'' \<and>
         cards (snd (permission_denied s)) = cards s \<and>
         images (snd (permission_denied s)) = images s \<and>
         files (snd (permission_denied s)) = files s \<and>
         flashes (snd (permission_denied s)) =
           flashes s @ [(''You do not have permission to do that.'', ''error'')]"
  using assms
  by (simp add: add_card_def edit_card_def upload_image_def upload_folder_def delete_card_def
      delete_image_def permission_denied_def flash_def)

theorem admin_only_routes_reject_witness:
  "delete_card public_session 1 gallery_world =
     (Redirect ''gallery'',
      gallery_world\<lparr>flashes := [(''You do not have permission to do that.'', ''error'')]\<rparr>) \<and>
   add_card Map.empty (Some ''Alps'') None gallery_world =
     (Redirect ''gallery'',
      gallery_world\<lparr>flashes := [(''You do not have permission to do that.'', ''error'')]\<rparr>)"
proof -
  have p: "public_session ''gallery_access'' \<noteq> Some ''admin''"
    by (simp add: public_session_def)
  have e: "(Map.empty :: session) ''gallery_access'' \<noteq> Some ''admin''"
    by simp
  have f: "flashes gallery_world = []"
    by (simp add: gallery_world_def)
  from admin_only_routes_reject [where sess = public_session and s = gallery_world and cid = 1, OF p]
    admin_only_routes_reject [where sess = Map.empty and s = gallery_world
      and card_name_field = "Some ''Alps''" and parent_id_field = None, OF e]
  show ?thesis
    by (simp add: permission_denied_def flash_def f)
qed

section \<open>add_card and edit_card\<close>

text \<open>
  C9. For an admin, \<^verbatim>\<open>add_card\<close> with a missing or empty name returns the redirect to the
  gallery and the world exactly as it was: no row, no file, no flashed message. On an
  existing card \<^verbatim>\<open>edit_card\<close> with the same name field flashes the validation error.
\<close>

theorem add_card_empty_name_is_silent:
  assumes "sess ''gallery_access'' = Some ''admin''"
    and "card_name_field = None \<or> card_name_field = Some []"
  shows "add_card sess card_name_field parent_id_field s = (Redirect ''gallery'', s) \<and>
         (get_card (cards s) cid \<noteq> None \<longrightarrow>
            edit_card sess cid card_name_field s =
              (Redirect ''gallery'',
               s\<lparr>flashes := flashes s @ [(''New name cannot be empty.'', ''error'')]\<rparr>))"
  using assms by (auto simp: add_card_def edit_card_def flash_def)

theorem add_card_empty_name_is_silent_witness:
  "add_card admin_session (Some []) (Some ''1'') gallery_world = (Redirect ''gallery'', gallery_world) \<and>
   add_card admin_session None None gallery_world = (Redirect ''gallery'', gallery_world) \<and>
   edit_card admin_session 2 (Some []) gallery_world =
     (Redirect ''gallery'', gallery_world\<lparr>flashes := [(''New name cannot be empty.'', ''error'')]\<rparr>)"
proof -
  have a: "admin_session ''gallery_access'' = Some ''admin''" by (simp add: admin_session_def)
  have g: "get_card (cards gallery_world) 2 \<noteq> None" by (simp add: get_card_def gallery_world_def)
  have f: "flashes gallery_world = []" by (simp add: gallery_world_def)
  from add_card_empty_name_is_silent [where sess = admin_session and card_name_field = "Some []"
      and parent_id_field = "Some ''1''" and s = gallery_world and cid = 2, OF a]
    add_card_empty_name_is_silent [where sess = admin_session and card_name_field = None
      and parent_id_field = None and s = gallery_world and cid = 2, OF a] g f
  show ?thesis by simp
qed

text \<open>
  C8. For an admin and an existing card, \<^verbatim>\<open>edit_card\<close> with a missing or empty name only
  flashes the validation error. With a non-empty name the returned (committed) rows are
  the old ones in the old order, with the same keys and parents, and with the new name on
  the rows of that key; images and files are untouched and the success message is flashed.
\<close>

theorem edit_card_renames_or_rejects:
  assumes "sess ''gallery_access'' = Some ''admin''"
    and "get_card (cards s) cid = Some row"
  shows "(card_name_field = None \<or> card_name_field = Some [] \<longrightarrow>
            edit_card sess cid card_name_field s =
              (Redirect ''gallery'',
               s\<lparr>flashes := flashes s @ [(''New name cannot be empty.'', ''error'')]\<rparr>)) \<and>
         (\<forall>new_name. card_name_field = Some new_name \<and> new_name \<noteq> [] \<longrightarrow>
            (\<exists>s'. edit_card sess cid card_name_field s = (Redirect ''gallery'', s') \<and>
              map card_id (cards s') = map card_id (cards s) \<and>
              map card_parent_id (cards s') = map card_parent_id (cards s) \<and>
              map card_name (cards s') =
                map (\<lambda>c. if card_id c = cid then new_name else card_name c) (cards s) \<and>
              get_card (cards s') cid = Some (row\<lparr>card_name := new_name\<rparr>) \<and>
              images s' = images s \<and> files s' = files s \<and>
              flashes s' = flashes s @
                [(''Card renamed to '' @ dquote @ new_name @ dquote @ ''.'', ''success'')]))"
proof -
  from assms(2) have id: "card_id row = cid"
    by (auto simp: get_card_def dest: find_Some_iff [THEN iffD1])
  have found: "\<And>n. find (\<lambda>c. card_id c = cid)
                  (map (\<lambda>c. if card_id c = cid then c\<lparr>card_name := n\<rparr> else c) cs)
                = map_option (\<lambda>c. c\<lparr>card_name := n\<rparr>) (find (\<lambda>c. card_id c = cid) cs)" for cs
    by (induction cs) auto
  show ?thesis
    using assms id by (auto simp: edit_card_def flash_def get_card_def found comp_def)
qed


theorem edit_card_renames_or_rejects_witness:
  "edit_card admin_session 2 (Some []) gallery_world =
     (Redirect ''gallery'',
      gallery_world\<lparr>flashes := [(''New name cannot be empty.'', ''error'')]\<rparr>) \<and>
   (\<exists>s'. edit_card admin_session 2 (Some ''Roma'') gallery_world = (Redirect ''gallery'', s') \<and>
      map card_name (cards s') = [''Trips'', ''Roma'', ''Forum'', ''Pets''] \<and>
      get_card (cards s') 2 = Some \<lparr>card_id = 2, card_name = ''Roma'', card_parent_id = Some 1\<rparr>)"
proof -
  have a: "admin_session ''gallery_access'' = Some ''admin''"
    by (simp add: admin_session_def)
  have g: "get_card (cards gallery_world) 2 =
             Some \<lparr>card_id = 2, card_name = ''Rome'', card_parent_id = Some 1\<rparr>"
    by (simp add: get_card_def gallery_world_def)
  have f: "flashes gallery_world = []"
    by (simp add: gallery_world_def)
  have c: "map card_name (cards gallery_world) = [''Trips'', ''Rome'', ''Forum'', ''Pets'']"
      "map card_id (cards gallery_world) = [1, 2, 3, 4]"
    by (simp_all add: gallery_world_def)
  have n: "map (\<lambda>c. if card_id c = 2 then ''Roma'' else card_name c) (cards gallery_world) =
             [''Trips'', ''Roma'', ''Forum'', ''Pets'']"
    by (simp add: gallery_world_def)
  from edit_card_renames_or_rejects [where sess = admin_session and s = gallery_world and cid = 2
      and card_name_field = "Some []", OF a g]
    edit_card_renames_or_rejects [where sess = admin_session and s = gallery_world and cid = 2
      and card_name_field = "Some ''Roma''", OF a g] f n
  show ?thesis by auto
qed




section \<open>save_file\<close>

lemma splitext_append: "fst (splitext p) @ snd (splitext p) = p"
  by (simp add: splitext_def Let_def)

lemma save_file_loop_free: "\<not> path_exists fs (save_file_loop fs original counter fname)"
proof (induction fs original counter fname rule: save_file_loop.induct)
  case (1 fs original counter fname)
  then show ?case
    by (subst save_file_loop.simps) simp
qed

lemma save_file_loop_shape:
  "(\<not> path_exists fs fname \<and> save_file_loop fs original counter fname = fname) \<or>
   (path_exists fs fname \<and>
    (\<exists>k\<ge>counter. save_file_loop fs original counter fname = suffixed original k \<and>
       (\<forall>j. counter \<le> j \<and> j < k \<longrightarrow> suffixed original j \<in> set fs)))"
proof (induction fs original counter fname rule: save_file_loop.induct)
  case (1 fs original counter fname)
  show ?case
  proof (cases "path_exists fs fname")
    case False
    then show ?thesis
      by (subst save_file_loop.simps) simp
  next
    case True
    have step: "save_file_loop fs original counter fname =
                save_file_loop fs original (counter + 1) (suffixed original counter)"
      using True by (subst save_file_loop.simps) simp
    from "1.IH" [OF True]
    consider (stop) "\<not> path_exists fs (suffixed original counter)"
        "save_file_loop fs original (counter + 1) (suffixed original counter) =
           suffixed original counter"
      | (go) k where "path_exists fs (suffixed original counter)" "counter + 1 \<le> k"
        "save_file_loop fs original (counter + 1) (suffixed original counter) =
           suffixed original k"
        "\<forall>j. counter + 1 \<le> j \<and> j < k \<longrightarrow> suffixed original j \<in> set fs"
      by blast
    then show ?thesis
    proof cases
      case stop
      with True step show ?thesis
        by (intro disjI2 conjI exI [of _ counter]) auto
    next
      case go
      from go(1) have here: "suffixed original counter \<in> set fs"
        by (simp add: path_exists_def suffixed_nonempty)
      have "\<forall>j. counter \<le> j \<and> j < k \<longrightarrow> suffixed original j \<in> set fs"
      proof (intro allI impI)
        fix j assume "counter \<le> j \<and> j < k"
        then have "j = counter \<or> (counter + 1 \<le> j \<and> j < k)" by arith
        with here go(4) show "suffixed original j \<in> set fs" by blast
      qed
      with True step go(2,3) show ?thesis
        by (intro disjI2 conjI exI [of _ k]) auto
    qed
  qed
qed

text \<open>
  C5. When the write succeeds, \<^verbatim>\<open>save_file\<close> returns a name that was no entry of the
  directory when it was called, and the directory gains exactly that entry. The name is
  the sanitized name if that was free; otherwise it is the sanitized name with \<^verbatim>\<open>_k\<close> put
  before its extension, for the first \<^verbatim>\<open>k\<close> from 1 upwards whose name is free. A second
  file saved right after, whatever its name, gets a name different from the first.
\<close>

theorem save_file_returns_free_name:
  assumes "save_fault file = None"
  shows "\<exists>fname. save_file secure_filename fs file = Inr (fname, List.insert fname fs) \<and>
           fname \<notin> set fs \<and>
           (\<not> path_exists fs (secure_filename (filename file)) \<longrightarrow>
              fname = secure_filename (filename file)) \<and>
           (path_exists fs (secure_filename (filename file)) \<longrightarrow>
              (\<exists>k\<ge>1.
                 fname = fst (splitext (secure_filename (filename file))) @ ''_'' @ str_nat k @
                         snd (splitext (secure_filename (filename file))) \<and>
                 (\<forall>j. 1 \<le> j \<and> j < k \<longrightarrow>
                    fst (splitext (secure_filename (filename file))) @ ''_'' @ str_nat j @
                    snd (splitext (secure_filename (filename file))) \<in> set fs))) \<and>
           (\<forall>other. save_fault other = None \<longrightarrow>
              (\<exists>fname2. save_file secure_filename (List.insert fname fs) other =
                           Inr (fname2, List.insert fname2 (List.insert fname fs)) \<and>
                         fname2 \<noteq> fname))"
proof -
  let ?orig = "secure_filename (filename file)"
  let ?fname = "save_file_loop fs ?orig 1 ?orig"
  have sf: "\<And>d f. save_fault f = None \<Longrightarrow>
      save_file secure_filename d f =
        Inr (save_file_loop d (secure_filename (filename f)) 1 (secure_filename (filename f)),
             List.insert (save_file_loop d (secure_filename (filename f)) 1
                            (secure_filename (filename f))) d)"
    by (simp add: save_file_def Let_def)
  have suf: "\<And>k. suffixed ?orig k = fst (splitext ?orig) @ ''_'' @ str_nat k @ snd (splitext ?orig)"
    by (simp add: suffixed_def split: prod.splits)
  have free: "?fname \<notin> set fs"
    using save_file_loop_free [of fs ?orig 1 ?orig] by (simp add: path_exists_def)
  have shape: "(\<not> path_exists fs ?orig \<longrightarrow> ?fname = ?orig) \<and>
    (path_exists fs ?orig \<longrightarrow>
       (\<exists>k\<ge>1. ?fname = suffixed ?orig k \<and> (\<forall>j. 1 \<le> j \<and> j < k \<longrightarrow> suffixed ?orig j \<in> set fs)))"
    using save_file_loop_shape [of fs ?orig ?orig 1] by auto
  have second: "\<And>other :: upload. save_fault other = None \<Longrightarrow>
      save_file_loop (List.insert ?fname fs) (secure_filename (filename other)) 1
        (secure_filename (filename other)) \<noteq> ?fname"
  proof -
    fix other :: upload
    have "\<not> path_exists (List.insert ?fname fs)
             (save_file_loop (List.insert ?fname fs) (secure_filename (filename other)) 1
                (secure_filename (filename other)))"
      by (rule save_file_loop_free)
    then show "save_file_loop (List.insert ?fname fs) (secure_filename (filename other)) 1
        (secure_filename (filename other)) \<noteq> ?fname"
      by (auto simp: path_exists_def)
  qed
  show ?thesis
    apply (rule exI [of _ ?fname])
    using assms free shape second by (simp add: sf suf)
qed

theorem save_file_returns_free_name_witness:
  "save_fault \<lparr>filename = ''cat.gif'', save_fault = None\<rparr> = None \<and>
   (\<exists>fname. save_file secure_filename_ascii [''cat.gif'']
               \<lparr>filename = ''cat.gif'', save_fault = None\<rparr> =
             Inr (fname, [fname, ''cat.gif'']) \<and> fname \<noteq> ''cat.gif'') \<and>
   save_file secure_filename_ascii [] \<lparr>filename = ''cat.gif'', save_fault = None\<rparr> =
     Inr (''cat.gif'', [''cat.gif'']) \<and>
   save_file secure_filename_ascii [''cat.gif''] \<lparr>filename = ''cat.gif'', save_fault = None\<rparr> =
     Inr (''cat_1.gif'', [''cat_1.gif'', ''cat.gif''])"
proof -
  have h: "save_fault \<lparr>filename = ''cat.gif'', save_fault = None\<rparr> = None"
    by simp
  have e1: "save_file secure_filename_ascii [] \<lparr>filename = ''cat.gif'', save_fault = None\<rparr> =
     Inr (''cat.gif'', [''cat.gif''])"
    by code_simp
  have e2: "save_file secure_filename_ascii [''cat.gif'']
       \<lparr>filename = ''cat.gif'', save_fault = None\<rparr> =
     Inr (''cat_1.gif'', [''cat_1.gif'', ''cat.gif''])"
    by code_simp
  from save_file_returns_free_name [where secure_filename = secure_filename_ascii
      and fs = "[''cat.gif'']", OF h] e1 e2
  show ?thesis by auto
qed

section \<open>upload_folder\<close>

lemma save_file_success:
  assumes "save_fault file = None"
  shows "\<exists>fname. save_file secure_filename fs file = Inr (fname, List.insert fname fs) \<and>
           fname \<notin> set fs"
proof -
  let ?fname = "save_file_loop fs (secure_filename (filename file)) 1
                  (secure_filename (filename file))"
  have "?fname \<notin> set fs"
    using save_file_loop_free [of fs "secure_filename (filename file)" 1
        "secure_filename (filename file)"]
    by (simp add: path_exists_def)
  with assms show ?thesis
    by (simp add: save_file_def Let_def)
qed

lemma save_file_failure:
  "save_fault file = Some message \<Longrightarrow> save_file secure_filename fs file = Inl message"
  by (simp add: save_file_def Let_def)

lemma insert_new_length: "x \<notin> set xs \<Longrightarrow> length (List.insert x xs) = Suc (length xs)"
  by (simp add: List.insert_def)

lemma upload_folder_loop_none_accepted:
  "\<forall>f\<in>set us. \<not> allowed_file (filename f) \<Longrightarrow>
   upload_folder_loop secure_filename cid us s n = Inr (s, n)"
  by (induction us) simp_all

lemma upload_folder_loop_append:
  "upload_folder_loop secure_filename cid (xs @ ys) s n =
     (case upload_folder_loop secure_filename cid xs s n of
        Inl e \<Rightarrow> Inl e
      | Inr (s', n') \<Rightarrow> upload_folder_loop secure_filename cid ys s' n')"
proof (induction xs arbitrary: s n)
  case Nil
  show ?case by simp
next
  case (Cons x xs)
  show ?case
    by (simp add: Cons.IH split: sum.splits prod.splits)
qed

lemma upload_folder_loop_success:
  assumes "\<forall>f\<in>set us. save_fault f = None"
  shows "\<exists>s' new. upload_folder_loop secure_filename cid us s n =
             Inr (s', n + length (filter (\<lambda>f. truthy f \<and> allowed_file (filename f)) us)) \<and>
           cards s' = cards s \<and> flashes s' = flashes s \<and>
           images s' = images s @ new \<and>
           length new = length (filter (\<lambda>f. truthy f \<and> allowed_file (filename f)) us) \<and>
           (\<forall>i\<in>set new. image_card_id i = cid \<and> image_filename i \<in> set (files s') \<and>
                         image_filename i \<notin> set (files s)) \<and>
           set (files s) \<subseteq> set (files s') \<and>
           length (files s') =
             length (files s) + length (filter (\<lambda>f. truthy f \<and> allowed_file (filename f)) us)"
  using assms
proof (induction us arbitrary: s n)
  case Nil
  show ?case by simp
next
  case (Cons u us)
  let ?ok = "\<lambda>f. truthy f \<and> allowed_file (filename f)"
  from Cons.prems have rest: "\<forall>f\<in>set us. save_fault f = None" and this_one: "save_fault u = None"
    by simp_all
  show ?case
  proof (cases "?ok u")
    case False
    from Cons.IH [OF rest, of s n] False show ?thesis by auto
  next
    case True
    from save_file_success [OF this_one, of secure_filename "files s"]
    obtain fname where sv: "save_file secure_filename (files s) u =
        Inr (fname, List.insert fname (files s))" and fr: "fname \<notin> set (files s)"
      by blast
    let ?s1 = "new_image (s\<lparr>files := List.insert fname (files s)\<rparr>) fname cid"
    have s1: "cards ?s1 = cards s" "flashes ?s1 = flashes s"
      "files ?s1 = List.insert fname (files s)"
      "images ?s1 = images s @ [\<lparr>image_id = fresh_id (map image_id (images s)),
          image_filename = fname, image_card_id = cid\<rparr>]"
      by (simp_all add: new_image_def)
    from Cons.IH [OF rest, of ?s1 "n + 1"]
    obtain s' new where
      r: "upload_folder_loop secure_filename cid us ?s1 (n + 1) =
            Inr (s', n + 1 + length (filter ?ok us))"
      and c: "cards s' = cards ?s1" "flashes s' = flashes ?s1"
      and i: "images s' = images ?s1 @ new" "length new = length (filter ?ok us)"
      and m: "\<forall>i\<in>set new. image_card_id i = cid \<and> image_filename i \<in> set (files s') \<and>
                image_filename i \<notin> set (files ?s1)"
      and f: "set (files ?s1) \<subseteq> set (files s')"
        "length (files s') = length (files ?s1) + length (filter ?ok us)"
      by blast
    let ?new = "\<lparr>image_id = fresh_id (map image_id (images s)),
          image_filename = fname, image_card_id = cid\<rparr> # new"
    have g1: "upload_folder_loop secure_filename cid (u # us) s n =
            Inr (s', n + length (filter ?ok (u # us)))"
      using True sv r by simp
    have g2: "cards s' = cards s" "flashes s' = flashes s"
      using c s1(1,2) by simp_all
    have g3: "images s' = images s @ ?new"
      using i(1) s1(4) by simp
    have g4: "length ?new = length (filter ?ok (u # us))"
      using True i(2) by simp
    have g5: "\<forall>i\<in>set ?new. image_card_id i = cid \<and> image_filename i \<in> set (files s') \<and>
                image_filename i \<notin> set (files s)"
      using m f(1) fr s1(3) by auto
    have g6: "set (files s) \<subseteq> set (files s')"
      using f(1) s1(3) by auto
    have g7: "length (files s') = length (files s) + length (filter ?ok (u # us))"
      using f(2) s1(3) True fr by (simp add: insert_new_length)
    show ?thesis
      by (intro exI [of _ s'] exI [of _ ?new] conjI) (fact g1 g2 g3 g4 g5 g6 g7)+
  qed
qed

lemma upload_folder_loop_failure:
  "upload_folder_loop secure_filename cid us s n = Inl (message, s') \<Longrightarrow>
   cards s' = cards s \<and> flashes s' = flashes s \<and> set (files s) \<subseteq> set (files s')"
proof (induction us arbitrary: s n)
  case Nil
  then show ?case by simp
next
  case (Cons u us)
  show ?case
  proof (cases "truthy u \<and> allowed_file (filename u)")
    case False
    with Cons.prems have "upload_folder_loop secure_filename cid us s n = Inl (message, s')"
      by auto
    from Cons.IH [OF this] show ?thesis .
  next
    case True
    show ?thesis
    proof (cases "save_file secure_filename (files s) u")
      case (Inl e)
      with True Cons.prems show ?thesis by auto
    next
      case (Inr p)
      obtain fname fs where p: "p = (fname, fs)" by (cases p)
      from Inr p have "fs = List.insert fname (files s)"
        by (auto simp: save_file_def Let_def split: option.splits)
      moreover from True Inr p Cons.prems
      have "upload_folder_loop secure_filename cid us
              (new_image (s\<lparr>files := fs\<rparr>) fname cid) (n + 1) = Inl (message, s')"
        by simp
      from Cons.IH [OF this]
      have "cards s' = cards s \<and> flashes s' = flashes s \<and> set fs \<subseteq> set (files s')"
        by (simp add: new_image_def)
      ultimately show ?thesis by auto
    qed
  qed
qed

lemma folder_card_name_before_separator:
  "CHR ''/'' \<notin> set a \<Longrightarrow> folder_card_name (a @ CHR ''/'' # b) = a"
proof -
  assume "CHR ''/'' \<notin> set a"
  then have "takeWhile (\<lambda>c. c \<noteq> CHR ''/'') (a @ CHR ''/'' # b) = a"
    by (induction a) auto
  then show ?thesis
    by (simp add: folder_card_name_def split1_def)
qed

lemma folder_card_name_no_separator:
  "CHR ''/'' \<notin> set p \<Longrightarrow> folder_card_name p = ''Uploaded Files''"
  by (simp add: folder_card_name_def split1_def)

lemma upload_folder_loop_result:
  "upload_folder_loop secure_filename cid us s n = Inr (s', n') \<Longrightarrow>
   cards s' = cards s \<and> flashes s' = flashes s \<and> set (files s) \<subseteq> set (files s')"
proof (induction us arbitrary: s n)
  case Nil
  then show ?case by simp
next
  case (Cons u us)
  show ?case
  proof (cases "truthy u \<and> allowed_file (filename u)")
    case False
    with Cons.prems have "upload_folder_loop secure_filename cid us s n = Inr (s', n')"
      by auto
    from Cons.IH [OF this] show ?thesis .
  next
    case True
    show ?thesis
    proof (cases "save_file secure_filename (files s) u")
      case (Inl e)
      with True Cons.prems show ?thesis by auto
    next
      case (Inr p)
      obtain fname fs where p: "p = (fname, fs)" by (cases p)
      from Inr p have "fs = List.insert fname (files s)"
        by (auto simp: save_file_def Let_def split: option.splits)
      moreover from True Inr p Cons.prems
      have "upload_folder_loop secure_filename cid us
              (new_image (s\<lparr>files := fs\<rparr>) fname cid) (n + 1) = Inr (s', n')"
        by simp
      from Cons.IH [OF this]
      have "cards s' = cards s \<and> flashes s' = flashes s \<and> set fs \<subseteq> set (files s')"
        by (simp add: new_image_def)
      ultimately show ?thesis by auto
    qed
  qed
qed

lemma upload_folder_try_Cons:
  "uploads = first # rest \<Longrightarrow>
   upload_folder_try secure_filename None commit_fault uploads s =
     (case upload_folder_loop secure_filename (fresh_id (map card_id (cards s))) uploads
             (s\<lparr>cards := cards s @ [\<lparr>card_id = fresh_id (map card_id (cards s)),
                  card_name = folder_card_name (filename first), card_parent_id = None\<rparr>]\<rparr>) 0 of
        Inl (message, s2) \<Rightarrow> Inl (message, s2)
      | Inr (s2, uploaded_count) \<Rightarrow>
          (case commit_fault of
             Some message \<Rightarrow> Inl (message, s2)
           | None \<Rightarrow>
               Inr (flash (''Folder '' @ dquote @ folder_card_name (filename first) @ dquote @
                           '' created with '' @ str_nat uploaded_count @ '' images.'')
                      ''success'' s2)))"
  by (simp add: upload_folder_try_def Let_def del: upload_folder_loop.simps)

lemma upload_folder_try_failure:
  assumes "upload_folder_try secure_filename flush_fault commit_fault uploads s =
             Inl (message, s1)"
  shows "flashes s1 = flashes s \<and> set (files s) \<subseteq> set (files s1)"
proof (cases uploads)
  case Nil
  with assms show ?thesis by (simp add: upload_folder_try_def)
next
  case (Cons first rest)
  let ?cid = "fresh_id (map card_id (cards s))"
  let ?s0 = "s\<lparr>cards := cards s @ [\<lparr>card_id = ?cid,
                 card_name = folder_card_name (filename first), card_parent_id = None\<rparr>]\<rparr>"
  show ?thesis
  proof (cases flush_fault)
    case (Some m)
    with assms Cons show ?thesis
      by (auto simp: upload_folder_try_def Let_def)
  next
    case None
    show ?thesis
    proof (cases "upload_folder_loop secure_filename ?cid uploads ?s0 0")
      case (Inl e)
      with assms Cons None have "e = (message, s1)"
        by (auto simp: upload_folder_try_def Let_def simp del: upload_folder_loop.simps)
      with Inl upload_folder_loop_failure [of secure_filename ?cid uploads ?s0 0 message s1]
      show ?thesis by simp
    next
      case (Inr r)
      obtain s2 k where r: "r = (s2, k)" by (cases r)
      with assms Cons None Inr have "s1 = s2"
        by (auto simp: upload_folder_try_def Let_def simp del: upload_folder_loop.simps
            split: option.splits)
      with Inr r upload_folder_loop_result [of secure_filename ?cid uploads ?s0 0 s1 k]
      show ?thesis by simp
    qed
  qed
qed

text \<open>
  C4. For an admin, a batch with at least one file and no failure of the disk or the
  database, \<^verbatim>\<open>upload_folder\<close> appends exactly one card, under a fresh key and with no
  parent. Its name is the text before the first \<^verbatim>\<open>/\<close> of the first file's path when the
  path has one, and \<^verbatim>\<open>Uploaded Files\<close> otherwise. The new images, one per accepted file,
  all belong to that card.
\<close>

theorem upload_folder_creates_one_top_level_card:
  assumes "sess ''gallery_access'' = Some ''admin''"
    and "uploads = first # rest"
    and "flush_fault = None" and "commit_fault = None"
    and "\<forall>f\<in>set uploads. save_fault f = None"
  shows "\<exists>s' new. upload_folder secure_filename flush_fault commit_fault sess uploads s =
             (Redirect ''gallery'', s') \<and>
           cards s' = cards s @ [\<lparr>card_id = fresh_id (map card_id (cards s)),
                                   card_name = folder_card_name (filename first),
                                   card_parent_id = None\<rparr>] \<and>
           (\<forall>a b. filename first = a @ CHR ''/'' # b \<and> CHR ''/'' \<notin> set a \<longrightarrow>
                  folder_card_name (filename first) = a) \<and>
           (CHR ''/'' \<notin> set (filename first) \<longrightarrow>
              folder_card_name (filename first) = ''Uploaded Files'') \<and>
           images s' = images s @ new \<and>
           length new = length (filter (\<lambda>f. truthy f \<and> allowed_file (filename f)) uploads) \<and>
           (\<forall>i\<in>set new. image_card_id i = fresh_id (map card_id (cards s)))"
proof -
  let ?cid = "fresh_id (map card_id (cards s))"
  let ?card = "\<lparr>card_id = ?cid, card_name = folder_card_name (filename first),
                 card_parent_id = None\<rparr>"
  let ?s1 = "s\<lparr>cards := cards s @ [?card]\<rparr>"
  let ?ok = "\<lambda>f. truthy f \<and> allowed_file (filename f)"
  from upload_folder_loop_success [OF assms(5), of secure_filename ?cid ?s1 0]
  obtain s2 new where
    r: "upload_folder_loop secure_filename ?cid uploads ?s1 0 =
          Inr (s2, length (filter ?ok uploads))"
    and c: "cards s2 = cards ?s1"
    and i: "images s2 = images ?s1 @ new" "length new = length (filter ?ok uploads)"
      "\<forall>i\<in>set new. image_card_id i = ?cid \<and> image_filename i \<in> set (files s2) \<and>
                image_filename i \<notin> set (files ?s1)"
    by auto
  let ?s' = "flash (''Folder '' @ dquote @ folder_card_name (filename first) @ dquote @
               '' created with '' @ str_nat (length (filter ?ok uploads)) @ '' images.'')
               ''success'' s2"
  have t: "upload_folder_try secure_filename flush_fault commit_fault uploads s = Inr ?s'"
    using assms(2,3,4) r by (simp add: upload_folder_try_def Let_def del: upload_folder_loop.simps)
  have g1: "upload_folder secure_filename flush_fault commit_fault sess uploads s =
              (Redirect ''gallery'', ?s')"
    using assms(1,2) t by (simp add: upload_folder_def)
  have g2: "cards ?s' = cards s @ [?card]"
    using c by (simp add: flash_def)
  have g3: "\<forall>a b. filename first = a @ CHR ''/'' # b \<and> CHR ''/'' \<notin> set a \<longrightarrow>
                  folder_card_name (filename first) = a"
    by (auto simp: folder_card_name_before_separator)
  have g4: "CHR ''/'' \<notin> set (filename first) \<longrightarrow>
              folder_card_name (filename first) = ''Uploaded Files''"
    by (simp add: folder_card_name_no_separator)
  have g5: "images ?s' = images s @ new"
    using i(1) by (simp add: flash_def)
  have g6: "\<forall>i\<in>set new. image_card_id i = ?cid"
    using i(3) by blast
  show ?thesis
    by (intro exI [of _ ?s'] exI [of _ new] conjI) (fact g1 g2 g3 g4 g5 i(2) g6)+
qed

theorem upload_folder_creates_one_top_level_card_witness:
  "upload_folder secure_filename_ascii None None admin_session trip_batch gallery_world =
     (Redirect ''gallery'',
      \<lparr>cards = cards gallery_world @
                 [\<lparr>card_id = 5, card_name = ''Trip'', card_parent_id = None\<rparr>],
        images = images gallery_world @
                 [\<lparr>image_id = 4, image_filename = ''Trip_a.jpg'', image_card_id = 5\<rparr>,
                  \<lparr>image_id = 5, image_filename = ''Trip_b.png'', image_card_id = 5\<rparr>],
        files = [''Trip_b.png'', ''Trip_a.jpg'', ''map.png'', ''rome.jpg'', ''cat.gif''],
        flashes = [(''Folder '' @ dquote @ ''Trip'' @ dquote @ '' created with 2 images.'',
                    ''success'')]\<rparr>) \<and>
   folder_card_name ''Trip/a.jpg'' = ''Trip'' \<and>
   folder_card_name ''a.jpg'' = ''Uploaded Files''"
proof -
  have a: "admin_session ''gallery_access'' = Some ''admin''"
    by (simp add: admin_session_def)
  have u: "trip_batch = \<lparr>filename = ''Trip/a.jpg'', save_fault = None\<rparr> #
                        [\<lparr>filename = ''Trip/b.png'', save_fault = None\<rparr>]"
    by (simp add: trip_batch_def)
  have n: "(None :: string option) = None" by simp
  have sv: "\<forall>f\<in>set trip_batch. save_fault f = None"
    by (simp add: trip_batch_def)
  have e: "upload_folder secure_filename_ascii None None admin_session trip_batch gallery_world =
     (Redirect ''gallery'',
      \<lparr>cards = cards gallery_world @
                 [\<lparr>card_id = 5, card_name = ''Trip'', card_parent_id = None\<rparr>],
        images = images gallery_world @
                 [\<lparr>image_id = 4, image_filename = ''Trip_a.jpg'', image_card_id = 5\<rparr>,
                  \<lparr>image_id = 5, image_filename = ''Trip_b.png'', image_card_id = 5\<rparr>],
        files = [''Trip_b.png'', ''Trip_a.jpg'', ''map.png'', ''rome.jpg'', ''cat.gif''],
        flashes = [(''Folder '' @ dquote @ ''Trip'' @ dquote @ '' created with 2 images.'',
                    ''success'')]\<rparr>)"
    by code_simp
  have k: "folder_card_name ''a.jpg'' = ''Uploaded Files''"
    by (simp add: folder_card_name_def split1_def)
  from upload_folder_creates_one_top_level_card [where sess = admin_session
      and secure_filename = secure_filename_ascii and s = gallery_world, OF a u n n sv]
  have "\<forall>a b. ''Trip/a.jpg'' = a @ CHR ''/'' # b \<and> CHR ''/'' \<notin> set a \<longrightarrow>
               folder_card_name ''Trip/a.jpg'' = a"
    by auto
  then have "''Trip/a.jpg'' = ''Trip'' @ CHR ''/'' # ''a.jpg'' \<and> CHR ''/'' \<notin> set ''Trip'' \<longrightarrow>
               folder_card_name ''Trip/a.jpg'' = ''Trip''"
    by blast
  then have "folder_card_name ''Trip/a.jpg'' = ''Trip''"
    by simp
  with e k show ?thesis by simp
qed

text \<open>
  C10. For an admin and a batch with at least one file, none of which passes
  \<^verbatim>\<open>allowed_file\<close>, and no failure of the database: the card is created and committed all
  the same, no image and no file is added, and the success message counts 0 images.
\<close>

theorem upload_folder_nothing_accepted:
  assumes "sess ''gallery_access'' = Some ''admin''"
    and "uploads = first # rest"
    and "flush_fault = None" and "commit_fault = None"
    and "\<forall>f\<in>set uploads. \<not> allowed_file (filename f)"
  shows "upload_folder secure_filename flush_fault commit_fault sess uploads s =
           (Redirect ''gallery'',
            s\<lparr>cards := cards s @ [\<lparr>card_id = fresh_id (map card_id (cards s)),
                                    card_name = folder_card_name (filename first),
                                    card_parent_id = None\<rparr>],
              flashes := flashes s @
                [(''Folder '' @ dquote @ folder_card_name (filename first) @ dquote @
                  '' created with 0 images.'', ''success'')]\<rparr>)"
proof -
  have z: "str_nat 0 = ''0''"
    by code_simp
  show ?thesis
    using assms(1-4) upload_folder_loop_none_accepted [OF assms(5)]
    by (simp add: upload_folder_def upload_folder_try_def Let_def flash_def z
        del: upload_folder_loop.simps)
qed

theorem upload_folder_nothing_accepted_witness:
  "upload_folder secure_filename_ascii None None admin_session loose_batch gallery_world =
     (Redirect ''gallery'',
      gallery_world\<lparr>cards := cards gallery_world @
           [\<lparr>card_id = 5, card_name = ''Uploaded Files'', card_parent_id = None\<rparr>],
         flashes := [(''Folder '' @ dquote @ ''Uploaded Files'' @ dquote @
                      '' created with 0 images.'', ''success'')]\<rparr>)"
proof -
  have a: "admin_session ''gallery_access'' = Some ''admin''"
    by (simp add: admin_session_def)
  have u: "loose_batch = \<lparr>filename = ''notes.txt'', save_fault = None\<rparr> #
                         [\<lparr>filename = ''run.exe'', save_fault = None\<rparr>]"
    by (simp add: loose_batch_def)
  have n: "(None :: string option) = None" by simp
  have r1: "\<not> allowed_file ''notes.txt''" by code_simp
  have r2: "\<not> allowed_file ''run.exe''" by code_simp
  have rej: "\<forall>f\<in>set loose_batch. \<not> allowed_file (filename f)"
    using r1 r2 by (simp add: loose_batch_def)
  have i: "fresh_id (map card_id (cards gallery_world)) = 5"
    by (simp add: fresh_id_def gallery_world_def)
  have k: "folder_card_name ''notes.txt'' = ''Uploaded Files''"
    by (simp add: folder_card_name_def split1_def)
  have f: "flashes gallery_world = []"
    by (simp add: gallery_world_def)
  from upload_folder_nothing_accepted [where sess = admin_session
      and secure_filename = secure_filename_ascii and s = gallery_world, OF a u n n rej]
  show ?thesis by (simp add: i k f)
qed

text \<open>
  C3. For an admin and a batch with at least one file. Whenever an exception leaves the
  \<^verbatim>\<open>try\<close> body, the route answers with the redirect, the cards and images are the ones it
  started with, the message of the exception is flashed, and the directory is the one of
  the moment of the exception: it contains every entry it had before, and nothing written
  is removed. When the write of an accepted file raises, the accepted files before it have
  been written (one new entry each); when the commit raises, all accepted files have.
\<close>

theorem upload_folder_exception_keeps_files:
  assumes "sess ''gallery_access'' = Some ''admin''"
    and "uploads \<noteq> []"
  shows "(\<forall>message s1.
            upload_folder_try secure_filename flush_fault commit_fault uploads s =
              Inl (message, s1) \<longrightarrow>
            upload_folder secure_filename flush_fault commit_fault sess uploads s =
              (Redirect ''gallery'',
               s\<lparr>files := files s1,
                 flashes := flashes s @
                   [(''An error occurred during folder upload: '' @ message, ''error'')]\<rparr>) \<and>
            set (files s) \<subseteq> set (files s1)) \<and>
         (\<forall>pre bad post message.
            uploads = pre @ bad # post \<and> flush_fault = None \<and>
            (\<forall>f\<in>set pre. save_fault f = None) \<and>
            truthy bad \<and> allowed_file (filename bad) \<and> save_fault bad = Some message \<longrightarrow>
            (\<exists>s1. upload_folder_try secure_filename flush_fault commit_fault uploads s =
                     Inl (message, s1) \<and>
                   length (files s1) = length (files s) +
                     length (filter (\<lambda>f. truthy f \<and> allowed_file (filename f)) pre))) \<and>
         (\<forall>message.
            flush_fault = None \<and> (\<forall>f\<in>set uploads. save_fault f = None) \<and>
            commit_fault = Some message \<longrightarrow>
            (\<exists>s1. upload_folder_try secure_filename flush_fault commit_fault uploads s =
                     Inl (message, s1) \<and>
                   length (files s1) = length (files s) +
                     length (filter (\<lambda>f. truthy f \<and> allowed_file (filename f)) uploads)))"
proof (intro conjI allI impI)
  fix message s1
  assume t: "upload_folder_try secure_filename flush_fault commit_fault uploads s =
               Inl (message, s1)"
  from upload_folder_try_failure [OF t]
  have fl: "flashes s1 = flashes s" and sub: "set (files s) \<subseteq> set (files s1)"
    by simp_all
  show "set (files s) \<subseteq> set (files s1)" by (rule sub)
  show "upload_folder secure_filename flush_fault commit_fault sess uploads s =
          (Redirect ''gallery'',
           s\<lparr>files := files s1,
             flashes := flashes s @
               [(''An error occurred during folder upload: '' @ message, ''error'')]\<rparr>)"
    using assms t fl by (simp add: upload_folder_def rollback_def flash_def)
next
  fix pre bad post message
  assume h: "uploads = pre @ bad # post \<and> flush_fault = None \<and>
            (\<forall>f\<in>set pre. save_fault f = None) \<and>
            truthy bad \<and> allowed_file (filename bad) \<and> save_fault bad = Some message"
  let ?ok = "\<lambda>f. truthy f \<and> allowed_file (filename f)"
  let ?cid = "fresh_id (map card_id (cards s))"
  obtain first rest where u: "uploads = first # rest"
    using assms(2) by (cases uploads) auto
  let ?s0 = "s\<lparr>cards := cards s @ [\<lparr>card_id = ?cid,
                 card_name = folder_card_name (filename first), card_parent_id = None\<rparr>]\<rparr>"
  from h have pre: "\<forall>f\<in>set pre. save_fault f = None" by simp
  from upload_folder_loop_success [OF pre, of secure_filename ?cid ?s0 0]
  obtain s1 where
    r: "upload_folder_loop secure_filename ?cid pre ?s0 0 = Inr (s1, length (filter ?ok pre))"
    and len: "length (files s1) = length (files ?s0) + length (filter ?ok pre)"
    by auto
  from h have "upload_folder_loop secure_filename ?cid (bad # post) s1
                 (length (filter ?ok pre)) = Inl (message, s1)"
    by (simp add: save_file_failure)
  with r have "upload_folder_loop secure_filename ?cid (pre @ bad # post) ?s0 0 =
                 Inl (message, s1)"
    by (simp add: upload_folder_loop_append del: upload_folder_loop.simps)
  with h have l: "upload_folder_loop secure_filename ?cid uploads ?s0 0 = Inl (message, s1)"
    by simp
  from h have ff: "flush_fault = None" by simp
  have "upload_folder_try secure_filename flush_fault commit_fault uploads s =
          Inl (message, s1)"
    unfolding ff upload_folder_try_Cons [OF u] l by simp
  with len show "\<exists>s1. upload_folder_try secure_filename flush_fault commit_fault uploads s =
                     Inl (message, s1) \<and>
                   length (files s1) = length (files s) + length (filter ?ok pre)"
    by (intro exI [of _ s1]) simp
next
  fix message
  assume h: "flush_fault = None \<and> (\<forall>f\<in>set uploads. save_fault f = None) \<and>
            commit_fault = Some message"
  let ?ok = "\<lambda>f. truthy f \<and> allowed_file (filename f)"
  let ?cid = "fresh_id (map card_id (cards s))"
  obtain first rest where u: "uploads = first # rest"
    using assms(2) by (cases uploads) auto
  let ?s0 = "s\<lparr>cards := cards s @ [\<lparr>card_id = ?cid,
                 card_name = folder_card_name (filename first), card_parent_id = None\<rparr>]\<rparr>"
  from h have all: "\<forall>f\<in>set uploads. save_fault f = None" by simp
  from upload_folder_loop_success [OF all, of secure_filename ?cid ?s0 0]
  obtain s1 where
    r: "upload_folder_loop secure_filename ?cid uploads ?s0 0 =
          Inr (s1, length (filter ?ok uploads))"
    and len: "length (files s1) = length (files ?s0) + length (filter ?ok uploads)"
    by auto
  from h have ff: "flush_fault = None" and cf: "commit_fault = Some message" by simp_all
  have "upload_folder_try secure_filename flush_fault commit_fault uploads s =
          Inl (message, s1)"
    unfolding ff cf upload_folder_try_Cons [OF u] r by simp
  with len show "\<exists>s1. upload_folder_try secure_filename flush_fault commit_fault uploads s =
                     Inl (message, s1) \<and>
                   length (files s1) = length (files s) + length (filter ?ok uploads)"
    by (intro exI [of _ s1]) simp
qed

theorem upload_folder_exception_keeps_files_witness:
  "upload_folder secure_filename_ascii None None admin_session failing_batch gallery_world =
     (Redirect ''gallery'',
      gallery_world\<lparr>files := [''Trip_a.jpg'', ''map.png'', ''rome.jpg'', ''cat.gif''],
         flashes := [(''An error occurred during folder upload: disk full'', ''error'')]\<rparr>) \<and>
   upload_folder secure_filename_ascii None (Some ''database is locked'') admin_session
       trip_batch gallery_world =
     (Redirect ''gallery'',
      gallery_world\<lparr>files := [''Trip_b.png'', ''Trip_a.jpg'', ''map.png'', ''rome.jpg'', ''cat.gif''],
         flashes := [(''An error occurred during folder upload: database is locked'',
                      ''error'')]\<rparr>)"
proof -
  have a: "admin_session ''gallery_access'' = Some ''admin''"
    by (simp add: admin_session_def)
  have ne: "failing_batch \<noteq> []" "trip_batch \<noteq> []"
    by (simp_all add: failing_batch_def trip_batch_def)
  have f: "flashes gallery_world = []"
    by (simp add: gallery_world_def)
  have t1: "upload_folder_try secure_filename_ascii None None failing_batch gallery_world =
     Inl (''disk full'',
          \<lparr>cards = cards gallery_world @
                     [\<lparr>card_id = 5, card_name = ''Trip'', card_parent_id = None\<rparr>],
            images = images gallery_world @
                     [\<lparr>image_id = 4, image_filename = ''Trip_a.jpg'', image_card_id = 5\<rparr>],
            files = [''Trip_a.jpg'', ''map.png'', ''rome.jpg'', ''cat.gif''],
            flashes = []\<rparr>)"
    by code_simp
  have t2: "upload_folder_try secure_filename_ascii None (Some ''database is locked'')
              trip_batch gallery_world =
     Inl (''database is locked'',
          \<lparr>cards = cards gallery_world @
                     [\<lparr>card_id = 5, card_name = ''Trip'', card_parent_id = None\<rparr>],
            images = images gallery_world @
                     [\<lparr>image_id = 4, image_filename = ''Trip_a.jpg'', image_card_id = 5\<rparr>,
                      \<lparr>image_id = 5, image_filename = ''Trip_b.png'', image_card_id = 5\<rparr>],
            files = [''Trip_b.png'', ''Trip_a.jpg'', ''map.png'', ''rome.jpg'', ''cat.gif''],
            flashes = []\<rparr>)"
    by code_simp
  from upload_folder_exception_keeps_files [where sess = admin_session
      and secure_filename = secure_filename_ascii and s = gallery_world
      and flush_fault = None and commit_fault = None, OF a ne(1)] t1
    upload_folder_exception_keeps_files [where sess = admin_session
      and secure_filename = secure_filename_ascii and s = gallery_world
      and flush_fault = None and commit_fault = "Some ''database is locked''", OF a ne(2)] t2
  show ?thesis by (simp add: f)
qed

section \<open>upload_image\<close>

lemma upload_image_loop_success:
  assumes "\<forall>f\<in>set us. save_fault f = None"
  shows "\<exists>s' new. upload_image_loop secure_filename cid us s n =
             Inr (s', n + length (filter (\<lambda>f. filename f \<noteq> [] \<and> allowed_file (filename f)) us)) \<and>
           cards s' = cards s \<and>
           flashes s' = flashes s @
             map (\<lambda>f. (''File '' @ dquote @ filename f @ dquote @ '' is not an allowed type.'',
                       ''error''))
               (filter (\<lambda>f. filename f \<noteq> [] \<and> \<not> allowed_file (filename f)) us) \<and>
           images s' = images s @ new \<and>
           length new = length (filter (\<lambda>f. filename f \<noteq> [] \<and> allowed_file (filename f)) us) \<and>
           (\<forall>i\<in>set new. image_card_id i = cid \<and> image_filename i \<in> set (files s') \<and>
                         image_filename i \<notin> set (files s)) \<and>
           set (files s) \<subseteq> set (files s') \<and>
           length (files s') =
             length (files s) +
             length (filter (\<lambda>f. filename f \<noteq> [] \<and> allowed_file (filename f)) us)"
  using assms
proof (induction us arbitrary: s n)
  case Nil
  show ?case by simp
next
  case (Cons u us)
  let ?ok = "\<lambda>f. filename f \<noteq> [] \<and> allowed_file (filename f)"
  let ?bad = "\<lambda>f. filename f \<noteq> [] \<and> \<not> allowed_file (filename f)"
  let ?warn = "\<lambda>f. (''File '' @ dquote @ filename f @ dquote @ '' is not an allowed type.'',
                      ''error'')"
  from Cons.prems have rest: "\<forall>f\<in>set us. save_fault f = None" and this_one: "save_fault u = None"
    by simp_all
  show ?case
  proof (cases "?ok u")
    case False
    let ?s1 = "if filename u \<noteq> [] then flash (fst (?warn u)) ''error'' s else s"
    have s1: "cards ?s1 = cards s" "images ?s1 = images s" "files ?s1 = files s"
      "flashes ?s1 = flashes s @ map ?warn (filter ?bad [u])"
      using False by (auto simp: flash_def)
    from Cons.IH [OF rest, of ?s1 n]
    obtain s' new where
      r: "upload_image_loop secure_filename cid us ?s1 n = Inr (s', n + length (filter ?ok us))"
      and c: "cards s' = cards ?s1"
      and fl: "flashes s' = flashes ?s1 @ map ?warn (filter ?bad us)"
      and i: "images s' = images ?s1 @ new" "length new = length (filter ?ok us)"
      and m: "\<forall>i\<in>set new. image_card_id i = cid \<and> image_filename i \<in> set (files s') \<and>
                image_filename i \<notin> set (files ?s1)"
      and f: "set (files ?s1) \<subseteq> set (files s')"
        "length (files s') = length (files ?s1) + length (filter ?ok us)"
      by blast
    have g1: "upload_image_loop secure_filename cid (u # us) s n =
            Inr (s', n + length (filter ?ok (u # us)))"
      using False r by (auto simp: truthy_def)
    have g2: "cards s' = cards s"
      using c s1(1) by simp
    have g3: "flashes s' = flashes s @ map ?warn (filter ?bad (u # us))"
      using fl s1(4) by simp
    have g4: "images s' = images s @ new"
      using i(1) s1(2) by simp
    have g5: "length new = length (filter ?ok (u # us))"
      using False i(2) by simp
    have g6: "\<forall>i\<in>set new. image_card_id i = cid \<and> image_filename i \<in> set (files s') \<and>
                image_filename i \<notin> set (files s)"
      using m s1(3) by simp
    have g7: "set (files s) \<subseteq> set (files s')"
      using f(1) s1(3) by simp
    have g8: "length (files s') = length (files s) + length (filter ?ok (u # us))"
      using f(2) s1(3) False by simp
    show ?thesis
      by (intro exI [of _ s'] exI [of _ new] conjI) (fact g1 g2 g3 g4 g5 g6 g7 g8)+
  next
    case True
    from save_file_success [OF this_one, of secure_filename "files s"]
    obtain fname where sv: "save_file secure_filename (files s) u =
        Inr (fname, List.insert fname (files s))" and fr: "fname \<notin> set (files s)"
      by blast
    let ?s1 = "new_image (s\<lparr>files := List.insert fname (files s)\<rparr>) fname cid"
    have s1: "cards ?s1 = cards s" "flashes ?s1 = flashes s"
      "files ?s1 = List.insert fname (files s)"
      "images ?s1 = images s @ [\<lparr>image_id = fresh_id (map image_id (images s)),
          image_filename = fname, image_card_id = cid\<rparr>]"
      by (simp_all add: new_image_def)
    from Cons.IH [OF rest, of ?s1 "n + 1"]
    obtain s' new where
      r: "upload_image_loop secure_filename cid us ?s1 (n + 1) =
            Inr (s', n + 1 + length (filter ?ok us))"
      and c: "cards s' = cards ?s1"
      and fl: "flashes s' = flashes ?s1 @ map ?warn (filter ?bad us)"
      and i: "images s' = images ?s1 @ new" "length new = length (filter ?ok us)"
      and m: "\<forall>i\<in>set new. image_card_id i = cid \<and> image_filename i \<in> set (files s') \<and>
                image_filename i \<notin> set (files ?s1)"
      and f: "set (files ?s1) \<subseteq> set (files s')"
        "length (files s') = length (files ?s1) + length (filter ?ok us)"
      by blast
    let ?new = "\<lparr>image_id = fresh_id (map image_id (images s)),
          image_filename = fname, image_card_id = cid\<rparr> # new"
    have g1: "upload_image_loop secure_filename cid (u # us) s n =
            Inr (s', n + length (filter ?ok (u # us)))"
      using True sv r by (simp add: truthy_def)
    have g2: "cards s' = cards s"
      using c s1(1) by simp
    have g3: "flashes s' = flashes s @ map ?warn (filter ?bad (u # us))"
      using fl s1(2) True by simp
    have g4: "images s' = images s @ ?new"
      using i(1) s1(4) by simp
    have g5: "length ?new = length (filter ?ok (u # us))"
      using True i(2) by simp
    have g6: "\<forall>i\<in>set ?new. image_card_id i = cid \<and> image_filename i \<in> set (files s') \<and>
                image_filename i \<notin> set (files s)"
      using m f(1) fr s1(3) by auto
    have g7: "set (files s) \<subseteq> set (files s')"
      using f(1) s1(3) by auto
    have g8: "length (files s') = length (files s) + length (filter ?ok (u # us))"
      using f(2) s1(3) True fr by (simp add: insert_new_length)
    show ?thesis
      by (intro exI [of _ s'] exI [of _ ?new] conjI) (fact g1 g2 g3 g4 g5 g6 g7 g8)+
  qed
qed

text \<open>
  C6. For an admin, a card the lookup finds and a batch whose writes succeed,
  \<^verbatim>\<open>upload_image\<close> treats each file on its own. A file with an empty name leaves no trace.
  A named file that \<^verbatim>\<open>allowed_file\<close> rejects (no dot, or an extension outside png, jpg,
  jpeg, gif, webp in any case) adds one warning that quotes its name, in batch order.
  Every other file adds one entry to the directory, under a name that was free, and one
  image row of the card with that name. The last message is the count of stored files,
  or the generic failure when none was stored; the cards are untouched.
\<close>

theorem upload_image_per_file:
  assumes "sess ''gallery_access'' = Some ''admin''"
    and "query_get key_of (cards s) card_id_field = Some row"
    and "\<forall>f\<in>set uploads. save_fault f = None"
  shows "\<exists>s' new.
           upload_image secure_filename key_of sess card_id_field uploads s =
             (Redirect ''gallery'', s') \<and>
           cards s' = cards s \<and>
           images s' = images s @ new \<and>
           length new =
             length (filter (\<lambda>f. filename f \<noteq> [] \<and> allowed_file (filename f)) uploads) \<and>
           (\<forall>i\<in>set new. image_card_id i = card_id row \<and> image_filename i \<in> set (files s') \<and>
                         image_filename i \<notin> set (files s)) \<and>
           set (files s) \<subseteq> set (files s') \<and>
           length (files s') = length (files s) + length new \<and>
           flashes s' = flashes s @
             map (\<lambda>f. (''File '' @ dquote @ filename f @ dquote @ '' is not an allowed type.'',
                       ''error''))
               (filter (\<lambda>f. filename f \<noteq> [] \<and> \<not> allowed_file (filename f)) uploads) @
             [if new = [] then (''No valid files were selected or uploaded.'', ''error'')
              else (str_nat (length new) @ '' image(s) uploaded successfully.'', ''success'')]"
proof -
  let ?ok = "\<lambda>f. filename f \<noteq> [] \<and> allowed_file (filename f)"
  let ?bad = "\<lambda>f. filename f \<noteq> [] \<and> \<not> allowed_file (filename f)"
  let ?warn = "\<lambda>f. (''File '' @ dquote @ filename f @ dquote @ '' is not an allowed type.'',
                      ''error'')"
  let ?k = "length (filter ?ok uploads)"
  from upload_image_loop_success [OF assms(3), of secure_filename "card_id row" s 0]
  obtain s1 new where
    r: "upload_image_loop secure_filename (card_id row) uploads s 0 = Inr (s1, ?k)"
    and c: "cards s1 = cards s"
    and fl: "flashes s1 = flashes s @ map ?warn (filter ?bad uploads)"
    and i: "images s1 = images s @ new" "length new = ?k"
    and m: "\<forall>i\<in>set new. image_card_id i = card_id row \<and> image_filename i \<in> set (files s1) \<and>
              image_filename i \<notin> set (files s)"
    and f: "set (files s) \<subseteq> set (files s1)" "length (files s1) = length (files s) + ?k"
    by auto
  show ?thesis
  proof (cases "?k = 0")
    case True
    let ?s' = "flash ''No valid files were selected or uploaded.'' ''error'' (rollback s s1)"
    from True i have e: "new = []" by simp
    have g1: "upload_image secure_filename key_of sess card_id_field uploads s =
                (Redirect ''gallery'', ?s')"
      using assms(1,2) r True by (simp add: upload_image_def)
    have g2: "cards ?s' = cards s" "images ?s' = images s @ new" "files ?s' = files s1"
      using e by (simp_all add: flash_def rollback_def)
    have g3: "flashes ?s' = flashes s @ map ?warn (filter ?bad uploads) @
        [if new = [] then (''No valid files were selected or uploaded.'', ''error'')
         else (str_nat (length new) @ '' image(s) uploaded successfully.'', ''success'')]"
      using e fl by (simp add: flash_def rollback_def)
    show ?thesis
      apply (intro exI [of _ ?s'] exI [of _ new] conjI)
      using g1 g2 g3 i m f by simp_all
  next
    case False
    let ?s' = "flash (str_nat ?k @ '' image(s) uploaded successfully.'') ''success'' s1"
    from False i have e: "new \<noteq> []" by auto
    have g1: "upload_image secure_filename key_of sess card_id_field uploads s =
                (Redirect ''gallery'', ?s')"
      using assms(1,2) r False by (simp add: upload_image_def)
    have g2: "cards ?s' = cards s" "images ?s' = images s @ new" "files ?s' = files s1"
      using c i by (simp_all add: flash_def)
    have g3: "flashes ?s' = flashes s @ map ?warn (filter ?bad uploads) @
        [if new = [] then (''No valid files were selected or uploaded.'', ''error'')
         else (str_nat (length new) @ '' image(s) uploaded successfully.'', ''success'')]"
      using e fl i(2) by (simp add: flash_def)
    show ?thesis
      apply (intro exI [of _ ?s'] exI [of _ new] conjI)
      using g1 g2 g3 i m f by simp_all
  qed
qed

theorem upload_image_per_file_witness:
  "upload_image secure_filename_ascii decimal_key admin_session (Some ''4'') mixed_batch
     gallery_world =
     (Redirect ''gallery'',
      gallery_world\<lparr>images := images gallery_world @
           [\<lparr>image_id = 4, image_filename = ''cat_1.gif'', image_card_id = 4\<rparr>,
            \<lparr>image_id = 5, image_filename = ''Dog.PNG'', image_card_id = 4\<rparr>],
         files := [''Dog.PNG'', ''cat_1.gif'', ''map.png'', ''rome.jpg'', ''cat.gif''],
         flashes := [(''File '' @ dquote @ ''run.exe'' @ dquote @ '' is not an allowed type.'',
                      ''error''),
                     (''2 image(s) uploaded successfully.'', ''success'')]\<rparr>)"
proof -
  have a: "admin_session ''gallery_access'' = Some ''admin''"
    by (simp add: admin_session_def)
  have q: "query_get decimal_key (cards gallery_world) (Some ''4'') =
             Some \<lparr>card_id = 4, card_name = ''Pets'', card_parent_id = None\<rparr>"
    by code_simp
  have sv: "\<forall>f\<in>set mixed_batch. save_fault f = None"
    by (simp add: mixed_batch_def)
  have e: "upload_image secure_filename_ascii decimal_key admin_session (Some ''4'') mixed_batch
     gallery_world =
     (Redirect ''gallery'',
      gallery_world\<lparr>images := images gallery_world @
           [\<lparr>image_id = 4, image_filename = ''cat_1.gif'', image_card_id = 4\<rparr>,
            \<lparr>image_id = 5, image_filename = ''Dog.PNG'', image_card_id = 4\<rparr>],
         files := [''Dog.PNG'', ''cat_1.gif'', ''map.png'', ''rome.jpg'', ''cat.gif''],
         flashes := [(''File '' @ dquote @ ''run.exe'' @ dquote @ '' is not an allowed type.'',
                      ''error''),
                     (''2 image(s) uploaded successfully.'', ''success'')]\<rparr>)"
    by code_simp
  from upload_image_per_file [where sess = admin_session and key_of = decimal_key
      and secure_filename = secure_filename_ascii and s = gallery_world, OF a q sv] e
  show ?thesis by simp
qed

section \<open>delete_card\<close>
















end
